theory Spec2Isabelle
  imports Complex_Main "HOL-Library.Char_ord" "HOL-Library.List_Lexorder"
begin

section \<open>Python values used by \<open>tools/render_crash_zone_assets.py\<close>\<close>

text \<open>
  A Python \<open>str\<close> is a \<open>string\<close>: a list of characters, each a code point below 256.
  A \<open>float\<close> opacity is an exact rational; the arithmetic \<open>opacity * 255 + 0.5\<close> is exact.
  A Python \<open>int\<close> is an \<open>int\<close>; lengths, indices and canvas coordinates, which the code
  never lets go negative, are \<open>nat\<close>.
  A \<open>pathlib.Path\<close> is kept symbolic: a path given as text, or \<open>p / name\<close>.
\<close>

datatype path = Path string | Slash path string

fun path_str :: "path \<Rightarrow> string" where
  "path_str (Path s) = s"
| "path_str (Slash p n) = path_str p @ ''/'' @ n"

datatype error =
    ValueError string
  | KeyError string
  | TypeError string
  | IndexError string
  | FileNotFoundError path
  | FileExistsError path
  | IsADirectoryError path

type_synonym pixel = "int \<times> int \<times> int \<times> int"

record AssetDefinition =
  slug :: string
  grid :: "string list"
  legend :: "(string \<times> (string option \<times> rat)) list"

definition TRANSPARENT_PIXEL :: pixel where
  "TRANSPARENT_PIXEL = (0, 0, 0, 0)"

subsection \<open>\<open>repr\<close> of a string\<close>

definition py_printable :: "char \<Rightarrow> bool" where
  "py_printable c =
     (let n = (of_char c :: nat) in (32 \<le> n \<and> n < 127) \<or> (161 \<le> n \<and> n \<noteq> 173))"

definition hex_lower :: "nat \<Rightarrow> char" where
  "hex_lower d = ''0123456789abcdef'' ! d"

definition repr_char :: "char \<Rightarrow> char \<Rightarrow> string" where
  "repr_char q c =
     (if c = q \<or> c = CHR 0x5C then [CHR 0x5C, c]
      else if c = CHR 0x09 then [CHR 0x5C, CHR ''t'']
      else if c = CHR 0x0A then [CHR 0x5C, CHR ''n'']
      else if c = CHR 0x0D then [CHR 0x5C, CHR ''r'']
      else if py_printable c then [c]
      else [CHR 0x5C, CHR ''x'',
            hex_lower ((of_char c :: nat) div 16), hex_lower ((of_char c :: nat) mod 16)])"

definition py_repr :: "string \<Rightarrow> string" where
  "py_repr s =
     (let q = (if CHR 0x27 \<in> set s \<and> CHR 0x22 \<notin> set s then CHR 0x22 else CHR 0x27)
      in [q] @ concat (map (repr_char q) s) @ [q])"

subsection \<open>\<open>int(s, 16)\<close>, \<open>int(x)\<close> of a float, \<open>str(n)\<close>, \<open>max(...)\<close>\<close>

definition digit_value :: "char \<Rightarrow> nat option" where
  "digit_value c =
     (let n = (of_char c :: nat) in
      if 48 \<le> n \<and> n \<le> 57 then Some (n - 48)
      else if 97 \<le> n \<and> n \<le> 102 then Some (n - 87)
      else if 65 \<le> n \<and> n \<le> 70 then Some (n - 55)
      else None)"

definition int_space :: "char \<Rightarrow> bool" where
  "int_space c = ((of_char c :: nat) \<in> {9, 10, 11, 12, 13, 32, 133, 160})"

fun double_underscore :: "string \<Rightarrow> bool" where
  "double_underscore (a # b # r) =
     ((a = CHR ''_'' \<and> b = CHR ''_'') \<or> double_underscore (b # r))"
| "double_underscore _ = False"

definition skip_sign :: "string \<Rightarrow> int \<times> string" where
  "skip_sign s =
     (case s of
        [] \<Rightarrow> (1, s)
      | c # r \<Rightarrow> if c = CHR ''+'' then (1, r) else if c = CHR ''-'' then (- 1, r) else (1, s))"

definition skip_prefix16 :: "string \<Rightarrow> string" where
  "skip_prefix16 s =
     (case s of
        a # b # r \<Rightarrow>
          if a = CHR ''0'' \<and> (b = CHR ''x'' \<or> b = CHR ''X'')
          then (case r of [] \<Rightarrow> r | u # r' \<Rightarrow> if u = CHR ''_'' then r' else r)
          else s
      | _ \<Rightarrow> s)"

definition py_int16 :: "string \<Rightarrow> error + int" where
  "py_int16 s =
     (let (sgn, s2) = skip_sign (dropWhile int_space s);
          s3 = skip_prefix16 s2;
          isdig = (\<lambda>c. digit_value c \<noteq> None \<or> c = CHR ''_'');
          body = takeWhile isdig s3;
          rest = dropWhile isdig s3
      in if body = [] \<or> hd body = CHR ''_'' \<or> last body = CHR ''_''
            \<or> double_underscore body \<or> dropWhile int_space rest \<noteq> []
         then Inl (ValueError (''invalid literal for int() with base 16: '' @ py_repr s))
         else Inr (sgn * int (foldl (\<lambda>acc c. 16 * acc + the (digit_value c)) 0
                                (filter (\<lambda>c. c \<noteq> CHR ''_'') body))))"

definition py_int :: "rat \<Rightarrow> int" where
  "py_int x = (if 0 \<le> x then \<lfloor>x\<rfloor> else \<lceil>x\<rceil>)"

fun str_nat :: "nat \<Rightarrow> string" where
  "str_nat n =
     (if n < 10 then [char_of (48 + n)] else str_nat (n div 10) @ [char_of (48 + n mod 10)])"

declare str_nat.simps [simp del]

definition py_str :: "int \<Rightarrow> string" where
  "py_str i = (if i < 0 then ''-'' @ str_nat (nat (- i)) else str_nat (nat i))"

definition int_not_iterable :: string where
  "int_not_iterable = [CHR 0x27] @ ''int'' @ [CHR 0x27] @ '' object is not iterable''"

fun py_max :: "nat list \<Rightarrow> error + nat" where
  "py_max [] = Inl (TypeError ''max expected at least 1 argument, got 0'')"
| "py_max [x] = Inl (TypeError int_not_iterable)"
| "py_max (x # y # ys) = Inr (foldl max x (y # ys))"

definition slice :: "string \<Rightarrow> nat \<Rightarrow> nat \<Rightarrow> string" where
  "slice s i j = take (j - i) (drop i s)"

section \<open>Legend resolver\<close>

definition hex_to_rgb :: "string \<Rightarrow> error + (int \<times> int \<times> int)" where
  "hex_to_rgb hex_colour =
     (let colour = dropWhile (\<lambda>c. c = CHR ''#'') hex_colour in
      if length colour \<noteq> 6
      then Inl (ValueError (''Unsupported colour value: '' @ py_repr hex_colour))
      else
        (case py_int16 (slice colour 0 2) of
           Inl e \<Rightarrow> Inl e
         | Inr r \<Rightarrow>
            (case py_int16 (slice colour 2 4) of
               Inl e \<Rightarrow> Inl e
             | Inr g \<Rightarrow>
                (case py_int16 (slice colour 4 6) of
                   Inl e \<Rightarrow> Inl e
                 | Inr b \<Rightarrow> Inr (r, g, b)))))"

definition to_rgba :: "string option \<Rightarrow> rat \<Rightarrow> error + pixel" where
  "to_rgba hex_colour opacity =
     (case hex_colour of
        None \<Rightarrow> Inr TRANSPARENT_PIXEL
      | Some h \<Rightarrow>
          if opacity \<le> 0 then Inr TRANSPARENT_PIXEL
          else
            (case hex_to_rgb h of
               Inl e \<Rightarrow> Inl e
             | Inr (r, g, b) \<Rightarrow>
                 (let alpha = py_int (opacity * 255 + 1 / 2);
                      alpha = max 0 (min alpha 255)
                  in Inr (r, g, b, alpha))))"

fun normalise_legend ::
  "(string \<times> (string option \<times> rat)) list \<Rightarrow> error + (string \<times> pixel) list" where
  "normalise_legend [] = Inr []"
| "normalise_legend ((symbol, (hex_colour, opacity)) # rest) =
     (case to_rgba hex_colour opacity of
        Inl e \<Rightarrow> Inl e
      | Inr p \<Rightarrow>
         (case normalise_legend rest of
            Inl e \<Rightarrow> Inl e
          | Inr l \<Rightarrow> Inr ((symbol, p) # l)))"

section \<open>Grid rasterizer\<close>

text \<open>
  A PIL image in mode RGBA: its size and its pixel rows. \<open>putpixel\<close> clips each channel
  to a byte and refuses a coordinate outside the image.
\<close>

record Image =
  width :: nat
  height :: nat
  rows :: "pixel list list"

definition CLIP8 :: "int \<Rightarrow> int" where
  "CLIP8 v = (if v < 0 then 0 else if 255 < v then 255 else v)"

fun clip_pixel :: "pixel \<Rightarrow> pixel" where
  "clip_pixel (r, g, b, a) = (CLIP8 r, CLIP8 g, CLIP8 b, CLIP8 a)"

definition Image_new :: "nat \<Rightarrow> nat \<Rightarrow> pixel \<Rightarrow> Image" where
  "Image_new w h colour =
     \<lparr>width = w, height = h, rows = replicate h (replicate w (clip_pixel colour))\<rparr>"

definition putpixel :: "Image \<Rightarrow> nat \<times> nat \<Rightarrow> pixel \<Rightarrow> error + Image" where
  "putpixel im xy value =
     (case xy of (x, y) \<Rightarrow>
        if x < width im \<and> y < height im
        then Inr (im\<lparr>rows := (rows im)[y := (rows im ! y)[x := clip_pixel value]]\<rparr>)
        else Inl (IndexError ''image index out of range''))"

definition getpixel :: "Image \<Rightarrow> nat \<times> nat \<Rightarrow> pixel" where
  "getpixel im xy = (case xy of (x, y) \<Rightarrow> rows im ! y ! x)"

fun py_join :: "string \<Rightarrow> string list \<Rightarrow> string" where
  "py_join sep [] = []"
| "py_join sep [x] = x"
| "py_join sep (x # y # ys) = x @ sep @ py_join sep (y # ys)"

definition unknown_symbol :: "string \<Rightarrow> (string \<times> pixel) list \<Rightarrow> char \<Rightarrow> error" where
  "unknown_symbol asset_slug lg symbol =
     (let available = py_join '', '' (sort (map fst lg)) in
      KeyError (''Symbol '' @ py_repr [symbol] @ '' in '' @ asset_slug
                @ '' is not defined. Known symbols: '' @ available))"

fun render_row ::
  "string \<Rightarrow> (string \<times> pixel) list \<Rightarrow> nat \<Rightarrow> nat \<Rightarrow> nat \<Rightarrow> string \<Rightarrow> Image
   \<Rightarrow> error + Image" where
  "render_row asset_slug lg horizontal_offset y column_index [] canvas = Inr canvas"
| "render_row asset_slug lg horizontal_offset y column_index (symbol # rest) canvas =
     (case map_of lg [symbol] of
        None \<Rightarrow> Inl (unknown_symbol asset_slug lg symbol)
      | Some pixel \<Rightarrow>
          if pixel = TRANSPARENT_PIXEL
          then render_row asset_slug lg horizontal_offset y (Suc column_index) rest canvas
          else
            (case putpixel canvas (horizontal_offset + column_index, y) pixel of
               Inl e \<Rightarrow> Inl e
             | Inr canvas' \<Rightarrow>
                 render_row asset_slug lg horizontal_offset y (Suc column_index) rest canvas'))"

fun render_rows ::
  "string \<Rightarrow> (string \<times> pixel) list \<Rightarrow> nat \<Rightarrow> nat \<Rightarrow> nat \<Rightarrow> string list \<Rightarrow> Image
   \<Rightarrow> error + Image" where
  "render_rows asset_slug lg base_dimension vertical_offset row_index [] canvas = Inr canvas"
| "render_rows asset_slug lg base_dimension vertical_offset row_index (row # rest) canvas =
     (let horizontal_offset = (base_dimension - length row) div 2 in
      case render_row asset_slug lg horizontal_offset (vertical_offset + row_index) 0 row canvas of
        Inl e \<Rightarrow> Inl e
      | Inr canvas' \<Rightarrow>
          render_rows asset_slug lg base_dimension vertical_offset (Suc row_index) rest canvas')"

definition render_asset_grid :: "AssetDefinition \<Rightarrow> error + Image" where
  "render_asset_grid asset =
     (case normalise_legend (legend asset) of
        Inl e \<Rightarrow> Inl e
      | Inr lg \<Rightarrow>
         (case py_max (length (grid asset) # map length (grid asset)) of
            Inl e \<Rightarrow> Inl e
          | Inr base_dimension \<Rightarrow>
             (let canvas = Image_new base_dimension base_dimension TRANSPARENT_PIXEL;
                  vertical_offset = (base_dimension - length (grid asset)) div 2
              in render_rows (slug asset) lg base_dimension vertical_offset 0 (grid asset) canvas)))"

section \<open>Scaler and exporter\<close>

text \<open>
  The world the exporter acts on: the directories and files of the file system and the lines
  printed so far. A saved file holds the picture handed to \<open>save\<close>: the base canvas, or the
  result of \<open>resize((size, size), resample=Image.NEAREST)\<close>, kept symbolic.
  A call either raises (\<open>Inl\<close>) or returns a value (\<open>Inr\<close>); the world reached is kept in
  both cases, since what was written before an exception stays written.
  Of the ways the file system can refuse a write, the model has a missing parent directory
  and a target that is a directory; \<open>mkdir\<close> fails when its path is a file.
\<close>

datatype picture = Unscaled Image | resize_NEAREST Image "int \<times> int"

datatype py_value = PyNone | PyList "(path \<times> bool) list"

record world =
  dirs :: "path set"
  files :: "path \<rightharpoonup> picture"
  stdout :: "string list"

record Namespace =
  args_output_dir :: path
  args_sizes :: "int list"
  args_include_base :: bool
  args_dry_run :: bool

definition print :: "string \<Rightarrow> world \<Rightarrow> world" where
  "print line w = w\<lparr>stdout := stdout w @ [line]\<rparr>"

fun parent_exists :: "world \<Rightarrow> path \<Rightarrow> bool" where
  "parent_exists w (Slash p n) = (p \<in> dirs w)"
| "parent_exists w (Path s) = True"

fun ancestors :: "path \<Rightarrow> path set" where
  "ancestors (Path s) = {}"
| "ancestors (Slash p n) = insert p (ancestors p)"

definition save :: "picture \<Rightarrow> path \<Rightarrow> world \<Rightarrow> (error + unit) \<times> world" where
  "save pic p w =
     (if \<not> parent_exists w p then (Inl (FileNotFoundError p), w)
      else if p \<in> dirs w then (Inl (IsADirectoryError p), w)
      else (Inr (), w\<lparr>files := (files w)(p \<mapsto> pic)\<rparr>))"

definition mkdir :: "path \<Rightarrow> world \<Rightarrow> (error + unit) \<times> world" where
  "mkdir p w =
     (if files w p \<noteq> None then (Inl (FileExistsError p), w)
      else (Inr (), w\<lparr>dirs := dirs w \<union> insert p (ancestors p)\<rparr>))"

fun export_sizes ::
  "string \<Rightarrow> Image \<Rightarrow> path \<Rightarrow> bool \<Rightarrow> int list \<Rightarrow> world \<Rightarrow> (error + py_value) \<times> world" where
  "export_sizes asset_slug base_image out_dir dry [] w = (Inr PyNone, w)"
| "export_sizes asset_slug base_image out_dir dry (sz # rest) w =
     (let filename = asset_slug @ ''_'' @ py_str sz @ ''.png'';
          target_path = Slash out_dir filename
      in if dry
         then export_sizes asset_slug base_image out_dir dry rest
                (print (''[dry-run] '' @ path_str target_path) w)
         else
           (let scaled = resize_NEAREST base_image (sz, sz) in
            case save scaled target_path w of
              (Inl e, w') \<Rightarrow> (Inl e, w')
            | (Inr u, w') \<Rightarrow>
                export_sizes asset_slug base_image out_dir dry rest
                  (print (''Saved '' @ path_str target_path) w')))"

definition export_base ::
  "string \<Rightarrow> Image \<Rightarrow> path \<Rightarrow> bool \<Rightarrow> world \<Rightarrow> (error + unit) \<times> world" where
  "export_base asset_slug base_image out_dir dry w =
     (let base_name = asset_slug @ ''_base.png'';
          base_path = Slash out_dir base_name
      in if dry then (Inr (), print (''[dry-run] '' @ path_str base_path) w)
         else
           (case save (Unscaled base_image) base_path w of
              (Inl e, w') \<Rightarrow> (Inl e, w')
            | (Inr u, w') \<Rightarrow> (Inr (), print (''Saved '' @ path_str base_path) w')))"

definition export_asset ::
  "AssetDefinition \<Rightarrow> int list \<Rightarrow> path \<Rightarrow> bool \<Rightarrow> bool \<Rightarrow> world
   \<Rightarrow> (error + py_value) \<times> world" where
  "export_asset asset szs out_dir inc_base dry w =
     (case render_asset_grid asset of
        Inl e \<Rightarrow> (Inl e, w)
      | Inr base_image \<Rightarrow>
         (case (if inc_base then export_base (slug asset) base_image out_dir dry w
                else (Inr (), w)) of
            (Inl e, w') \<Rightarrow> (Inl e, w')
          | (Inr u, w') \<Rightarrow>
              export_sizes (slug asset) base_image out_dir dry
                (sort (remdups (filter (\<lambda>sz. 0 < sz) szs))) w'))"

section \<open>Driver\<close>

fun export_all ::
  "AssetDefinition list \<Rightarrow> Namespace \<Rightarrow> world \<Rightarrow> (error + py_value) \<times> world" where
  "export_all [] args w = (Inr PyNone, w)"
| "export_all (asset # rest) args w =
     (case export_asset asset (args_sizes args) (args_output_dir args)
             (args_include_base args) (args_dry_run args) w of
        (Inl e, w') \<Rightarrow> (Inl e, w')
      | (Inr v, w') \<Rightarrow> export_all rest args w')"

text \<open>\<open>main\<close>, with the asset catalogue and the parsed arguments as parameters.\<close>

definition main :: "AssetDefinition list \<Rightarrow> Namespace \<Rightarrow> world \<Rightarrow> (error + py_value) \<times> world" where
  "main assets args w =
     (case (if \<not> args_dry_run args then mkdir (args_output_dir args) w else (Inr (), w)) of
        (Inl e, w') \<Rightarrow> (Inl e, w')
      | (Inr u, w') \<Rightarrow> export_all assets args w')"

section \<open>Vocabulary of the specification\<close>






text \<open>
  A well-formed image has as many rows as its height and rows as long as its width.
  \<open>symbol_at g side (x, y)\<close> is the grid symbol that the centring of the specification puts
  at the canvas position \<open>(x, y)\<close>: row \<open>i\<close> of the grid lies on the canvas line
  \<open>(side - row_count) // 2 + i\<close> and starts at the column \<open>(side - row_length) // 2\<close>.
\<close>

definition wf_image :: "Image \<Rightarrow> bool" where
  "wf_image im = (length (rows im) = height im \<and> (\<forall>r\<in>set (rows im). length r = width im))"

definition symbol_at :: "string list \<Rightarrow> nat \<Rightarrow> nat \<times> nat \<Rightarrow> char option" where
  "symbol_at g side xy =
     (case xy of (x, y) \<Rightarrow>
        let voff = (side - length g) div 2 in
        if voff \<le> y \<and> y < voff + length g
        then (let row = g ! (y - voff); hoff = (side - length row) div 2 in
              if hoff \<le> x \<and> x < hoff + length row then Some (row ! (x - hoff)) else None)
        else None)"

text \<open>
  The output artifacts of one asset, in the order of the specification: the unscaled
  \<open>{slug}_base.png\<close> when asked for, then \<open>{slug}_{size}.png\<close> for each size, all in the output
  directory; and the line that reports one of them.
\<close>

definition artifact_paths :: "string \<Rightarrow> path \<Rightarrow> bool \<Rightarrow> int list \<Rightarrow> path list" where
  "artifact_paths sl out_dir inc_base ss =
     (if inc_base then [Slash out_dir (sl @ ''_base.png'')] else [])
     @ map (\<lambda>sz. Slash out_dir (sl @ ''_'' @ py_str sz @ ''.png'')) ss"

definition report_line :: "bool \<Rightarrow> path \<Rightarrow> string" where
  "report_line dry p = (if dry then ''[dry-run] '' else ''Saved '') @ path_str p"

section \<open>Properties of the legend resolver\<close>






text \<open>C6: an absent colour, or an opacity that is not positive, resolves to the transparent
  sentinel \<open>(0, 0, 0, 0)\<close>, whatever the other field holds (the colour is not even parsed).\<close>

theorem to_rgba_transparent:
  "hex_colour = None \<or> opacity \<le> 0 \<Longrightarrow> to_rgba hex_colour opacity = Inr (0, 0, 0, 0)"
  by (auto simp: to_rgba_def TRANSPARENT_PIXEL_def split: option.splits)

theorem to_rgba_transparent_witness:
  "(Some ''not a colour'' = None \<or> (- 1 :: rat) \<le> 0)
   \<and> to_rgba (Some ''not a colour'') (- 1) = Inr (0, 0, 0, 0)"
  using to_rgba_transparent [of "Some ''not a colour''" "- 1"] by simp




















section \<open>Properties of the grid rasterizer\<close>

lemma putpixel_in_range:
  assumes "x < width im" "y < height im"
  shows "putpixel im (x, y) p =
    Inr (im\<lparr>rows := (rows im)[y := (rows im ! y)[x := clip_pixel p]]\<rparr>)"
  using assms by (simp add: putpixel_def)

lemma putpixel_effect:
  assumes "wf_image im" "x < width im" "y < height im"
    and "im' = im\<lparr>rows := (rows im)[y := (rows im ! y)[x := clip_pixel p]]\<rparr>"
  shows "wf_image im'" "width im' = width im" "height im' = height im"
    "getpixel im' (x', y') = (if x' = x \<and> y' = y then clip_pixel p else getpixel im (x', y'))"
proof -
  have len: "length (rows im) = height im" and rw: "\<forall>r\<in>set (rows im). length r = width im"
    using assms(1) by (auto simp: wf_image_def)
  have ry: "length (rows im ! y) = width im" using len rw assms(3) by simp
  show "width im' = width im" "height im' = height im" using assms(4) by simp_all
  show "wf_image im'"
    unfolding wf_image_def using assms(4) len rw ry
    by (auto dest!: set_update_subset_insert[THEN subsetD])
  show "getpixel im' (x', y') = (if x' = x \<and> y' = y then clip_pixel p else getpixel im (x', y'))"
    using assms(2,3,4) len ry
    by (auto simp: getpixel_def nth_list_update)
qed


lemma nth_Cons_shift:
  "a + Suc ci \<le> x' \<Longrightarrow> (c # rest) ! (x' - (a + ci)) = rest ! (x' - (a + Suc ci))"
  by (simp add: nth_Cons' Suc_diff_le)

lemma render_row_ok:
  assumes "\<forall>c\<in>set cs. map_of lg [c] \<noteq> None" "hoff + ci + length cs \<le> width canvas"
    "y < height canvas" "wf_image canvas"
  shows "\<exists>c'. render_row sl lg hoff y ci cs canvas = Inr c' \<and> wf_image c'
      \<and> width c' = width canvas \<and> height c' = height canvas
      \<and> (\<forall>x' y'. getpixel c' (x', y') =
            (if y' = y \<and> hoff + ci \<le> x' \<and> x' < hoff + ci + length cs
                \<and> the (map_of lg [cs ! (x' - (hoff + ci))]) \<noteq> TRANSPARENT_PIXEL
             then clip_pixel (the (map_of lg [cs ! (x' - (hoff + ci))]))
             else getpixel canvas (x', y')))"
  using assms
proof (induction cs arbitrary: ci canvas)
  case Nil
  then show ?case by auto
next
  case (Cons c rest)
  from Cons.prems(1) obtain p where p: "map_of lg [c] = Some p" by auto
  have known: "\<forall>c\<in>set rest. map_of lg [c] \<noteq> None" using Cons.prems(1) by simp
  have bnd: "hoff + Suc ci + length rest \<le> width canvas" using Cons.prems(2) by simp
  show ?case
  proof (cases "p = TRANSPARENT_PIXEL")
    case True
    from Cons.IH[OF known bnd Cons.prems(3) Cons.prems(4)]
    obtain c' where c': "render_row sl lg hoff y (Suc ci) rest canvas = Inr c'" "wf_image c'"
      "width c' = width canvas" "height c' = height canvas"
      and px: "\<And>x' y'. getpixel c' (x', y') =
            (if y' = y \<and> hoff + Suc ci \<le> x' \<and> x' < hoff + Suc ci + length rest
                \<and> the (map_of lg [rest ! (x' - (hoff + Suc ci))]) \<noteq> TRANSPARENT_PIXEL
             then clip_pixel (the (map_of lg [rest ! (x' - (hoff + Suc ci))]))
             else getpixel canvas (x', y'))"
      by blast
    have run: "render_row sl lg hoff y ci (c # rest) canvas = Inr c'"
      using p True c'(1) by simp
    have "getpixel c' (x', y') =
            (if y' = y \<and> hoff + ci \<le> x' \<and> x' < hoff + ci + length (c # rest)
                \<and> the (map_of lg [(c # rest) ! (x' - (hoff + ci))]) \<noteq> TRANSPARENT_PIXEL
             then clip_pixel (the (map_of lg [(c # rest) ! (x' - (hoff + ci))]))
             else getpixel canvas (x', y'))" for x' y'
    proof (cases "hoff + Suc ci \<le> x'")
      case True
      then show ?thesis using px[of x' y'] nth_Cons_shift[OF True, of c rest] by auto
    next
      case False
      then have "x' = hoff + ci \<or> x' < hoff + ci" by arith
      then show ?thesis using px[of x' y'] p \<open>p = TRANSPARENT_PIXEL\<close> by auto
    qed
    then show ?thesis using run c'(2,3,4) by blast
  next
    case False
    define canvas1 where
      "canvas1 = canvas\<lparr>rows := (rows canvas)[y := (rows canvas ! y)[hoff + ci := clip_pixel p]]\<rparr>"
    have xin: "hoff + ci < width canvas" using Cons.prems(2) by simp
    have put: "putpixel canvas (hoff + ci, y) p = Inr canvas1"
      using putpixel_in_range[OF xin Cons.prems(3)] canvas1_def by simp
    note eff = putpixel_effect[OF Cons.prems(4) xin Cons.prems(3) canvas1_def]
    have bnd1: "hoff + Suc ci + length rest \<le> width canvas1" using bnd eff(2) by simp
    have y1: "y < height canvas1" using Cons.prems(3) eff(3) by simp
    from Cons.IH[OF known bnd1 y1 eff(1)]
    obtain c' where c': "render_row sl lg hoff y (Suc ci) rest canvas1 = Inr c'" "wf_image c'"
      "width c' = width canvas1" "height c' = height canvas1"
      and px: "\<And>x' y'. getpixel c' (x', y') =
            (if y' = y \<and> hoff + Suc ci \<le> x' \<and> x' < hoff + Suc ci + length rest
                \<and> the (map_of lg [rest ! (x' - (hoff + Suc ci))]) \<noteq> TRANSPARENT_PIXEL
             then clip_pixel (the (map_of lg [rest ! (x' - (hoff + Suc ci))]))
             else getpixel canvas1 (x', y'))"
      by blast
    have run: "render_row sl lg hoff y ci (c # rest) canvas = Inr c'"
      using p False c'(1) put by simp
    have "getpixel c' (x', y') =
            (if y' = y \<and> hoff + ci \<le> x' \<and> x' < hoff + ci + length (c # rest)
                \<and> the (map_of lg [(c # rest) ! (x' - (hoff + ci))]) \<noteq> TRANSPARENT_PIXEL
             then clip_pixel (the (map_of lg [(c # rest) ! (x' - (hoff + ci))]))
             else getpixel canvas (x', y'))" for x' y'
    proof (cases "hoff + Suc ci \<le> x'")
      case True
      then show ?thesis
        using px[of x' y'] nth_Cons_shift[OF True, of c rest] eff(4)[of x' y'] by auto
    next
      case F: False
      then have "x' = hoff + ci \<or> x' < hoff + ci" by arith
      then show ?thesis using px[of x' y'] p False eff(4)[of x' y'] by auto
    qed
    then show ?thesis using run c'(2,3,4) eff(2,3) by simp
  qed
qed




lemma render_rows_ok:
  assumes "\<forall>row\<in>set rs. \<forall>c\<in>set row. map_of lg [c] \<noteq> None" "\<forall>row\<in>set rs. length row \<le> bd"
    "voff + ri + length rs \<le> height canvas" "width canvas = bd" "wf_image canvas"
  shows "\<exists>c'. render_rows sl lg bd voff ri rs canvas = Inr c' \<and> wf_image c'
      \<and> width c' = width canvas \<and> height c' = height canvas
      \<and> (\<forall>x' y'. getpixel c' (x', y') =
            (if voff + ri \<le> y' \<and> y' < voff + ri + length rs
                \<and> (bd - length (rs ! (y' - (voff + ri)))) div 2 \<le> x'
                \<and> x' < (bd - length (rs ! (y' - (voff + ri)))) div 2 + length (rs ! (y' - (voff + ri)))
                \<and> the (map_of lg [rs ! (y' - (voff + ri)) !
                      (x' - (bd - length (rs ! (y' - (voff + ri)))) div 2)]) \<noteq> TRANSPARENT_PIXEL
             then clip_pixel (the (map_of lg [rs ! (y' - (voff + ri)) !
                      (x' - (bd - length (rs ! (y' - (voff + ri)))) div 2)]))
             else getpixel canvas (x', y')))"
  using assms
proof (induction rs arbitrary: ri canvas)
  case Nil
  then show ?case by auto
next
  case (Cons row rest)
  define hoff where "hoff = (bd - length row) div 2"
  have lrow: "length row \<le> bd" using Cons.prems(2) by simp
  have b1: "hoff + 0 + length row \<le> width canvas" using lrow Cons.prems(4) hoff_def by simp
  have y1: "voff + ri < height canvas" using Cons.prems(3) by simp
  have k1: "\<forall>c\<in>set row. map_of lg [c] \<noteq> None" using Cons.prems(1) by simp
  from render_row_ok[OF k1 b1 y1 Cons.prems(5), of sl]
  obtain c1 where c1: "render_row sl lg hoff (voff + ri) 0 row canvas = Inr c1" "wf_image c1"
    "width c1 = width canvas" "height c1 = height canvas"
    and px1: "\<And>x' y'. getpixel c1 (x', y') =
            (if y' = voff + ri \<and> hoff \<le> x' \<and> x' < hoff + length row
                \<and> the (map_of lg [row ! (x' - hoff)]) \<noteq> TRANSPARENT_PIXEL
             then clip_pixel (the (map_of lg [row ! (x' - hoff)]))
             else getpixel canvas (x', y'))"
    by auto
  have k2: "\<forall>row\<in>set rest. \<forall>c\<in>set row. map_of lg [c] \<noteq> None" using Cons.prems(1) by simp
  have l2: "\<forall>row\<in>set rest. length row \<le> bd" using Cons.prems(2) by simp
  have b2: "voff + Suc ri + length rest \<le> height c1" using Cons.prems(3) c1(4) by simp
  have w2: "width c1 = bd" using c1(3) Cons.prems(4) by simp
  from Cons.IH[OF k2 l2 b2 w2 c1(2)]
  obtain c' where c': "render_rows sl lg bd voff (Suc ri) rest c1 = Inr c'" "wf_image c'"
    "width c' = width c1" "height c' = height c1"
    and px: "\<And>x' y'. getpixel c' (x', y') =
            (if voff + Suc ri \<le> y' \<and> y' < voff + Suc ri + length rest
                \<and> (bd - length (rest ! (y' - (voff + Suc ri)))) div 2 \<le> x'
                \<and> x' < (bd - length (rest ! (y' - (voff + Suc ri)))) div 2
                        + length (rest ! (y' - (voff + Suc ri)))
                \<and> the (map_of lg [rest ! (y' - (voff + Suc ri)) !
                      (x' - (bd - length (rest ! (y' - (voff + Suc ri)))) div 2)]) \<noteq> TRANSPARENT_PIXEL
             then clip_pixel (the (map_of lg [rest ! (y' - (voff + Suc ri)) !
                      (x' - (bd - length (rest ! (y' - (voff + Suc ri)))) div 2)]))
             else getpixel c1 (x', y'))"
    by blast
  have run: "render_rows sl lg bd voff ri (row # rest) canvas = Inr c'"
    using c1(1) c'(1) hoff_def by simp
  have "getpixel c' (x', y') =
            (if voff + ri \<le> y' \<and> y' < voff + ri + length (row # rest)
                \<and> (bd - length ((row # rest) ! (y' - (voff + ri)))) div 2 \<le> x'
                \<and> x' < (bd - length ((row # rest) ! (y' - (voff + ri)))) div 2
                        + length ((row # rest) ! (y' - (voff + ri)))
                \<and> the (map_of lg [(row # rest) ! (y' - (voff + ri)) !
                      (x' - (bd - length ((row # rest) ! (y' - (voff + ri)))) div 2)]) \<noteq> TRANSPARENT_PIXEL
             then clip_pixel (the (map_of lg [(row # rest) ! (y' - (voff + ri)) !
                      (x' - (bd - length ((row # rest) ! (y' - (voff + ri)))) div 2)]))
             else getpixel canvas (x', y'))" for x' y'
  proof (cases "voff + Suc ri \<le> y'")
    case True
    have sh: "(row # rest) ! (y' - (voff + ri)) = rest ! (y' - (voff + Suc ri))"
      using nth_Cons_shift[OF True] .
    have ne: "y' \<noteq> voff + ri" using True by simp
    show ?thesis unfolding sh using px[of x' y'] px1[of x' y'] True ne by auto
  next
    case False
    then have "y' = voff + ri \<or> y' < voff + ri" by arith
    then show ?thesis using px[of x' y'] px1[of x' y'] False hoff_def by auto
  qed
  then show ?case using run c'(2,3,4) c1(3,4) by simp
qed



lemma foldl_max_ge: "a \<le> foldl max (a::nat) xs \<and> (\<forall>x\<in>set xs. x \<le> foldl max a xs)"
proof (induction xs arbitrary: a)
  case Nil
  then show ?case by simp
next
  case (Cons x xs)
  have "max a x \<le> foldl max (max a x) xs" "\<forall>z\<in>set xs. z \<le> foldl max (max a x) xs"
    using Cons.IH[of "max a x"] by simp_all
  then show ?case by auto
qed

lemma foldl_max_Max: "foldl max (a::nat) xs = Max (insert a (set xs))"
proof (induction xs arbitrary: a)
  case Nil
  then show ?case by simp
next
  case (Cons x xs)
  have "foldl max a (x # xs) = Max (insert (max a x) (set xs))" using Cons.IH by simp
  also have "\<dots> = Max (insert a (insert x (set xs)))"
    by (cases "set xs = {}") (simp_all add: max.assoc)
  finally show ?case by simp
qed

lemma py_max_grid:
  assumes "g \<noteq> []"
  shows "py_max (length g # map length g) = Inr (max (length g) (Max (length ` set g)))"
proof -
  obtain r rs where g: "g = r # rs" using assms by (cases g) auto
  have "py_max (length g # map length g) = Inr (foldl max (length g) (map length g))"
    by (simp add: g)
  also have "foldl max (length g) (map length g) = Max (insert (length g) (length ` set g))"
    by (simp add: foldl_max_Max)
  also have "\<dots> = max (length g) (Max (length ` set g))"
    using assms by simp
  finally show ?thesis .
qed

lemma Image_new_props:
  "wf_image (Image_new w h c)" "width (Image_new w h c) = w" "height (Image_new w h c) = h"
  "x < w \<Longrightarrow> y < h \<Longrightarrow> getpixel (Image_new w h c) (x, y) = clip_pixel c"
  by (auto simp: wf_image_def Image_new_def getpixel_def)


lemma clip_transparent: "clip_pixel TRANSPARENT_PIXEL = TRANSPARENT_PIXEL"
  by (simp add: TRANSPARENT_PIXEL_def CLIP8_def)

lemma grid_bounds:
  assumes "g \<noteq> []" "side = max (length g) (Max (length ` set g))"
  shows "length g \<le> side" "\<forall>row\<in>set g. length row \<le> side"
proof -
  show "length g \<le> side" using assms(2) by simp
  have "length row \<le> Max (length ` set g)" if "row \<in> set g" for row
    using that by (intro Max_ge) auto
  then show "\<forall>row\<in>set g. length row \<le> side" using assms(2) by (simp add: le_max_iff_disj)
qed

lemma render_asset_grid_pixels:
  assumes lg: "normalise_legend (legend asset) = Inr lg"
    and ne: "grid asset \<noteq> []"
    and known: "\<forall>row\<in>set (grid asset). \<forall>c\<in>set row. map_of lg [c] \<noteq> None"
    and side: "side = max (length (grid asset)) (Max (length ` set (grid asset)))"
  shows "\<exists>im. render_asset_grid asset = Inr im \<and> wf_image im \<and> width im = side \<and> height im = side
     \<and> (\<forall>x y. x < side \<longrightarrow> y < side \<longrightarrow> getpixel im (x, y) =
           (case symbol_at (grid asset) side (x, y) of
              None \<Rightarrow> TRANSPARENT_PIXEL
            | Some c \<Rightarrow> clip_pixel (the (map_of lg [c]))))"
proof -
  define voff where "voff = (side - length (grid asset)) div 2"
  define canvas where "canvas = Image_new side side TRANSPARENT_PIXEL"
  note gb = grid_bounds[OF ne side]
  have mx: "py_max (length (grid asset) # map length (grid asset)) = Inr side"
    using py_max_grid[OF ne] side by simp
  have b: "voff + 0 + length (grid asset) \<le> height canvas"
    using gb(1) by (simp add: voff_def canvas_def Image_new_props)
  have w: "width canvas = side" by (simp add: canvas_def Image_new_props)
  have wf: "wf_image canvas" by (simp add: canvas_def Image_new_props)
  from render_rows_ok[OF known gb(2) b w wf, of "slug asset"]
  obtain im where im: "render_rows (slug asset) lg side voff 0 (grid asset) canvas = Inr im"
    "wf_image im" "width im = width canvas" "height im = height canvas"
    and px0: "\<forall>x' y'. getpixel im (x', y') =
            (if voff + 0 \<le> y' \<and> y' < voff + 0 + length (grid asset)
                \<and> (side - length (grid asset ! (y' - (voff + 0)))) div 2 \<le> x'
                \<and> x' < (side - length (grid asset ! (y' - (voff + 0)))) div 2
                        + length (grid asset ! (y' - (voff + 0)))
                \<and> the (map_of lg [grid asset ! (y' - (voff + 0)) !
                      (x' - (side - length (grid asset ! (y' - (voff + 0)))) div 2)]) \<noteq> TRANSPARENT_PIXEL
             then clip_pixel (the (map_of lg [grid asset ! (y' - (voff + 0)) !
                      (x' - (side - length (grid asset ! (y' - (voff + 0)))) div 2)]))
             else getpixel canvas (x', y'))"
    by blast
  have run: "render_asset_grid asset = Inr im"
    unfolding render_asset_grid_def lg mx using im(1)
    by (simp only: sum.case Let_def voff_def canvas_def)
  have "getpixel im (x, y) =
           (case symbol_at (grid asset) side (x, y) of
              None \<Rightarrow> TRANSPARENT_PIXEL
            | Some c \<Rightarrow> clip_pixel (the (map_of lg [c])))" if "x < side" "y < side" for x y
  proof -
    define row where "row = grid asset ! (y - voff)"
    define hoff where "hoff = (side - length row) div 2"
    define p where "p = the (map_of lg [row ! (x - hoff)])"
    define cond where "cond \<longleftrightarrow> voff \<le> y \<and> y < voff + length (grid asset) \<and> hoff \<le> x \<and> x < hoff + length row"
    have c0: "getpixel canvas (x, y) = TRANSPARENT_PIXEL"
      using that by (simp add: canvas_def Image_new_props clip_transparent)
    have sa: "symbol_at (grid asset) side (x, y) = (if cond then Some (row ! (x - hoff)) else None)"
      by (simp add: symbol_at_def Let_def voff_def row_def hoff_def cond_def)
    have "getpixel im (x, y) = (if cond \<and> p \<noteq> TRANSPARENT_PIXEL then clip_pixel p else TRANSPARENT_PIXEL)"
      using px0[rule_format, of x y] c0
      by (simp add: row_def hoff_def p_def cond_def conj_ac)
    also have "\<dots> = (if cond then clip_pixel p else TRANSPARENT_PIXEL)"
      using clip_transparent by auto
    finally show ?thesis by (simp add: sa p_def)
  qed
  then show ?thesis using run im(2,3,4) w
    by (simp add: canvas_def Image_new_props)
qed

text \<open>C1: for a non-empty grid of \<open>R\<close> rows whose longest row has \<open>C\<close> symbols, with a
  legend that resolves and has every symbol of the grid, rasterizing returns a square canvas
  of side \<open>max R C\<close>; the symbol \<open>j\<close> of row \<open>i\<close> lies at the line \<open>(side - R) // 2 + i\<close> and at
  the column \<open>(side - len(row i)) // 2 + j\<close>, the offset taken from that row's own length:
  the pixel there is the symbol's resolved colour (for a transparent symbol, the untouched
  transparent pixel).\<close>

theorem render_asset_grid_centred:
  assumes "normalise_legend (legend asset) = Inr lg"
    and "grid asset \<noteq> []"
    and "\<forall>row\<in>set (grid asset). \<forall>c\<in>set row. map_of lg [c] \<noteq> None"
    and "R = length (grid asset)" "C = Max (length ` set (grid asset))" "side = max R C"
  shows "\<exists>im. render_asset_grid asset = Inr im \<and> width im = side \<and> height im = side
     \<and> (\<forall>i j. i < R \<longrightarrow> j < length (grid asset ! i) \<longrightarrow>
           getpixel im ((side - length (grid asset ! i)) div 2 + j, (side - R) div 2 + i)
             = clip_pixel (the (map_of lg [grid asset ! i ! j])))"
proof -
  have side: "side = max (length (grid asset)) (Max (length ` set (grid asset)))"
    using assms(4-6) by simp
  note gb = grid_bounds[OF assms(2) side]
  from render_asset_grid_pixels[OF assms(1-3) side]
  obtain im where im: "render_asset_grid asset = Inr im" "width im = side" "height im = side"
    and px: "\<And>x y. x < side \<Longrightarrow> y < side \<Longrightarrow> getpixel im (x, y) =
           (case symbol_at (grid asset) side (x, y) of
              None \<Rightarrow> TRANSPARENT_PIXEL
            | Some c \<Rightarrow> clip_pixel (the (map_of lg [c])))"
    by blast
  have "getpixel im ((side - length (grid asset ! i)) div 2 + j, (side - R) div 2 + i)
             = clip_pixel (the (map_of lg [grid asset ! i ! j]))"
    if ij: "i < R" "j < length (grid asset ! i)" for i j
  proof -
    have li: "length (grid asset ! i) \<le> side" using gb(2) ij(1) assms(4) by simp
    have x: "(side - length (grid asset ! i)) div 2 + j < side" using li ij(2) by arith
    have y: "(side - R) div 2 + i < side" using gb(1) ij(1) assms(4) by arith
    have sa: "symbol_at (grid asset) side
        ((side - length (grid asset ! i)) div 2 + j, (side - R) div 2 + i) = Some (grid asset ! i ! j)"
      using ij assms(4) by (simp add: symbol_at_def)
    show ?thesis using px[OF x y] sa by simp
  qed
  then show ?thesis using im by blast
qed

theorem render_asset_grid_centred_witness:
  "\<exists>im. render_asset_grid \<lparr>slug = ''x'', grid = [''AAAAA'', ''A'', ''A.''],
              legend = [(''A'', (Some ''#FF0000'', 1)), (''.'', (None, 0))]\<rparr> = Inr im
     \<and> width im = 5 \<and> height im = 5
     \<and> getpixel im (0, 1) = (255, 0, 0, 255) \<and> getpixel im (2, 2) = (255, 0, 0, 255)
     \<and> getpixel im (1, 3) = (255, 0, 0, 255) \<and> getpixel im (2, 3) = (0, 0, 0, 0)"
proof -
  define a where "a = \<lparr>slug = ''x'', grid = [''AAAAA'', ''A'', ''A.''],
              legend = [(''A'', (Some ''#FF0000'', 1 :: rat)), (''.'', (None, 0))]\<rparr>"
  define lg :: "(string \<times> pixel) list"
    where "lg = [(''A'', (255, 0, 0, 255)), (''.'', (0, 0, 0, 0))]"
  have h1: "normalise_legend (legend a) = Inr lg" unfolding a_def lg_def by code_simp
  have h2: "grid a \<noteq> []" by (simp add: a_def)
  have h3: "\<forall>row\<in>set (grid a). \<forall>c\<in>set row. map_of lg [c] \<noteq> None"
    by (simp add: a_def lg_def)
  have h4: "3 = length (grid a)" "5 = Max (length ` set (grid a))" "5 = max (3::nat) 5"
    by (simp_all add: a_def)
  from render_asset_grid_centred[OF h1 h2 h3 h4]
  obtain im where im: "render_asset_grid a = Inr im" "width im = 5" "height im = 5"
    and px: "\<And>i j. i < 3 \<Longrightarrow> j < length (grid a ! i) \<Longrightarrow>
           getpixel im ((5 - length (grid a ! i)) div 2 + j, (5 - 3) div 2 + i)
             = clip_pixel (the (map_of lg [grid a ! i ! j]))"
    by blast
  have "getpixel im (0, 1) = (255, 0, 0, 255)"
  proof -
    have l: "(0::nat) < 3" "(0::nat) < length (grid a ! 0)" by (simp_all add: a_def)
    have k: "(5 - length (grid a ! 0)) div 2 + (0::nat) = 0" "(5 - 3) div 2 + (0::nat) = 1"
      by (simp_all add: a_def)
    have v: "clip_pixel (the (map_of lg [grid a ! 0 ! 0])) = (255, 0, 0, 255)"
      by (simp add: a_def lg_def CLIP8_def)
    from px[OF l] show ?thesis unfolding k v .
  qed
  moreover have "getpixel im (2, 2) = (255, 0, 0, 255)"
  proof -
    have l: "(1::nat) < 3" "(0::nat) < length (grid a ! 1)" by (simp_all add: a_def)
    have k: "(5 - length (grid a ! 1)) div 2 + (0::nat) = 2" "(5 - 3) div 2 + (1::nat) = 2"
      by (simp_all add: a_def)
    have v: "clip_pixel (the (map_of lg [grid a ! 1 ! 0])) = (255, 0, 0, 255)"
      by (simp add: a_def lg_def CLIP8_def)
    from px[OF l] show ?thesis unfolding k v .
  qed
  moreover have "getpixel im (1, 3) = (255, 0, 0, 255)"
  proof -
    have l: "(2::nat) < 3" "(0::nat) < length (grid a ! 2)" by (simp_all add: a_def)
    have k: "(5 - length (grid a ! 2)) div 2 + (0::nat) = 1" "(5 - 3) div 2 + (2::nat) = 3"
      by (simp_all add: a_def)
    have v: "clip_pixel (the (map_of lg [grid a ! 2 ! 0])) = (255, 0, 0, 255)"
      by (simp add: a_def lg_def CLIP8_def)
    from px[OF l] show ?thesis unfolding k v .
  qed
  moreover have "getpixel im (2, 3) = (0, 0, 0, 0)"
  proof -
    have l: "(2::nat) < 3" "(1::nat) < length (grid a ! 2)" by (simp_all add: a_def)
    have k: "(5 - length (grid a ! 2)) div 2 + (1::nat) = 2" "(5 - 3) div 2 + (2::nat) = 3"
      by (simp_all add: a_def)
    have v: "clip_pixel (the (map_of lg [grid a ! 2 ! 1])) = (0, 0, 0, 0)"
      by (simp add: a_def lg_def CLIP8_def)
    from px[OF l] show ?thesis unfolding k v .
  qed
  ultimately show ?thesis using im unfolding a_def by blast
qed

text \<open>C9: for a non-empty grid and a legend that resolves and has every symbol of the grid,
  every pixel of the canvas that is not the place of a grid symbol with a non-transparent
  resolved colour is the transparent sentinel: the pixels outside the centred rows, and the
  pixels of transparent symbols, are as \<open>Image.new\<close> made them.\<close>

theorem render_asset_grid_frame:
  assumes "normalise_legend (legend asset) = Inr lg"
    and "grid asset \<noteq> []"
    and "\<forall>row\<in>set (grid asset). \<forall>c\<in>set row. map_of lg [c] \<noteq> None"
    and "R = length (grid asset)" "side = max R (Max (length ` set (grid asset)))"
  shows "\<exists>im. render_asset_grid asset = Inr im
     \<and> (\<forall>x y. x < side \<longrightarrow> y < side \<longrightarrow>
           \<not> (\<exists>i j. i < R \<and> j < length (grid asset ! i)
                  \<and> x = (side - length (grid asset ! i)) div 2 + j \<and> y = (side - R) div 2 + i
                  \<and> the (map_of lg [grid asset ! i ! j]) \<noteq> TRANSPARENT_PIXEL) \<longrightarrow>
           getpixel im (x, y) = TRANSPARENT_PIXEL)"
proof -
  have side: "side = max (length (grid asset)) (Max (length ` set (grid asset)))"
    using assms(4,5) by simp
  from render_asset_grid_pixels[OF assms(1-3) side]
  obtain im where im: "render_asset_grid asset = Inr im"
    and px: "\<And>x y. x < side \<Longrightarrow> y < side \<Longrightarrow> getpixel im (x, y) =
           (case symbol_at (grid asset) side (x, y) of
              None \<Rightarrow> TRANSPARENT_PIXEL
            | Some c \<Rightarrow> clip_pixel (the (map_of lg [c])))"
    by blast
  have "getpixel im (x, y) = TRANSPARENT_PIXEL"
    if xy: "x < side" "y < side"
      and out: "\<not> (\<exists>i j. i < R \<and> j < length (grid asset ! i)
                  \<and> x = (side - length (grid asset ! i)) div 2 + j \<and> y = (side - R) div 2 + i
                  \<and> the (map_of lg [grid asset ! i ! j]) \<noteq> TRANSPARENT_PIXEL)" for x y
  proof (cases "symbol_at (grid asset) side (x, y)")
    case None
    then show ?thesis using px[OF xy] by simp
  next
    case (Some c)
    define i where "i = y - (side - R) div 2"
    define hoff where "hoff = (side - length (grid asset ! i)) div 2"
    define j where "j = x - hoff"
    have sa: "symbol_at (grid asset) side (x, y) =
       (if (side - R) div 2 \<le> y \<and> y < (side - R) div 2 + R
        then (if hoff \<le> x \<and> x < hoff + length (grid asset ! i)
              then Some (grid asset ! i ! j) else None)
        else None)"
      unfolding symbol_at_def Let_def i_def hoff_def j_def assms(4) by simp
    have c1: "(side - R) div 2 \<le> y \<and> y < (side - R) div 2 + R"
      using Some unfolding sa by (cases "(side - R) div 2 \<le> y \<and> y < (side - R) div 2 + R") simp_all
    have c2: "hoff \<le> x \<and> x < hoff + length (grid asset ! i)"
      using Some c1 unfolding sa by (cases "hoff \<le> x \<and> x < hoff + length (grid asset ! i)") simp_all
    have c3: "c = grid asset ! i ! j" using Some c1 c2 unfolding sa by simp
    have ci: "i < R" using c1 unfolding i_def by arith
    have cj: "j < length (grid asset ! i)" using c2 unfolding j_def by arith
    have cx: "x = hoff + j" using c2 unfolding j_def by arith
    have cy: "y = (side - R) div 2 + i" using c1 unfolding i_def by arith
    have "the (map_of lg [c]) = TRANSPARENT_PIXEL"
    proof (rule ccontr)
      assume "the (map_of lg [c]) \<noteq> TRANSPARENT_PIXEL"
      then have "i < R \<and> j < length (grid asset ! i)
          \<and> x = (side - length (grid asset ! i)) div 2 + j \<and> y = (side - R) div 2 + i
          \<and> the (map_of lg [grid asset ! i ! j]) \<noteq> TRANSPARENT_PIXEL"
        using ci cj cx cy c3 hoff_def by simp
      then show False using out by blast
    qed
    then show ?thesis using px[OF xy] Some clip_transparent by simp
  qed
  then show ?thesis using im by blast
qed


theorem render_asset_grid_frame_witness:
  "\<exists>im. render_asset_grid \<lparr>slug = ''x'', grid = [''AAAAA'', ''A'', ''A.''],
              legend = [(''A'', (Some ''#FF0000'', 1)), (''.'', (None, 0))]\<rparr> = Inr im
     \<and> getpixel im (0, 0) = (0, 0, 0, 0) \<and> getpixel im (4, 2) = (0, 0, 0, 0)"
proof -
  define a where "a = \<lparr>slug = ''x'', grid = [''AAAAA'', ''A'', ''A.''],
              legend = [(''A'', (Some ''#FF0000'', 1 :: rat)), (''.'', (None, 0))]\<rparr>"
  define lg :: "(string \<times> pixel) list"
    where "lg = [(''A'', (255, 0, 0, 255)), (''.'', (0, 0, 0, 0))]"
  have h1: "normalise_legend (legend a) = Inr lg" unfolding a_def lg_def by code_simp
  have h2: "grid a \<noteq> []" by (simp add: a_def)
  have h3: "\<forall>row\<in>set (grid a). \<forall>c\<in>set row. map_of lg [c] \<noteq> None"
    by (simp add: a_def lg_def)
  have h4: "3 = length (grid a)" "5 = max (3::nat) (Max (length ` set (grid a)))"
    by (simp_all add: a_def)
  from render_asset_grid_frame[OF h1 h2 h3 h4]
  obtain im where im: "render_asset_grid a = Inr im"
    and px: "\<And>x y. x < 5 \<Longrightarrow> y < 5 \<Longrightarrow>
           \<not> (\<exists>i j. i < 3 \<and> j < length (grid a ! i)
                  \<and> x = (5 - length (grid a ! i)) div 2 + j \<and> y = (5 - 3) div 2 + i
                  \<and> the (map_of lg [grid a ! i ! j]) \<noteq> TRANSPARENT_PIXEL) \<Longrightarrow>
           getpixel im (x, y) = TRANSPARENT_PIXEL"
    by blast
  have "getpixel im (0, 0) = TRANSPARENT_PIXEL"
    by (rule px) simp_all
  moreover have "getpixel im (4, 2) = TRANSPARENT_PIXEL"
  proof (rule px)
    show "\<not> (\<exists>i j. i < 3 \<and> j < length (grid a ! i)
                  \<and> 4 = (5 - length (grid a ! i)) div 2 + j \<and> 2 = (5 - 3) div 2 + i
                  \<and> the (map_of lg [grid a ! i ! j]) \<noteq> TRANSPARENT_PIXEL)"
    proof
      assume "\<exists>i j. i < 3 \<and> j < length (grid a ! i)
                  \<and> 4 = (5 - length (grid a ! i)) div 2 + j \<and> 2 = (5 - 3) div 2 + i
                  \<and> the (map_of lg [grid a ! i ! j]) \<noteq> TRANSPARENT_PIXEL"
      then obtain i j where ij: "j < length (grid a ! i)"
        "4 = (5 - length (grid a ! i)) div 2 + j" "(2::nat) = (5 - 3) div 2 + i" by blast
      from ij(3) have "i = 1" by simp
      then show False using ij(1,2) by (simp add: a_def)
    qed
  qed simp_all
  ultimately show ?thesis using im unfolding a_def TRANSPARENT_PIXEL_def by blast
qed

text \<open>C10: rasterizing needs a grid with at least one row. For the empty grid the canvas side is
  \<open>max(0)\<close>, one integer that is not iterable: rasterizing raises and no canvas is made. When
  the legend resolves, the exception is that \<open>TypeError\<close>; when it does not, the colour error
  comes first.\<close>

theorem render_asset_grid_empty:
  assumes "grid asset = []"
  shows "(\<exists>e. render_asset_grid asset = Inl e)
     \<and> (\<forall>lg. normalise_legend (legend asset) = Inr lg \<longrightarrow>
            render_asset_grid asset = Inl (TypeError int_not_iterable))"
  using assms by (auto simp: render_asset_grid_def split: sum.splits)

theorem render_asset_grid_empty_witness:
  "grid \<lparr>slug = ''x'', grid = [], legend = [(''A'', (Some ''#FF0000'', 1))]\<rparr> = []
   \<and> render_asset_grid \<lparr>slug = ''x'', grid = [], legend = [(''A'', (Some ''#FF0000'', 1))]\<rparr>
       = Inl (TypeError int_not_iterable)"
proof -
  define a where "a = \<lparr>slug = ''x'', grid = [], legend = [(''A'', (Some ''#FF0000'', 1 :: rat))]\<rparr>"
  have g: "grid a = []" by (simp add: a_def)
  have n: "normalise_legend (legend a) = Inr [(''A'', (255, 0, 0, 255))]"
    unfolding a_def by code_simp
  show ?thesis using render_asset_grid_empty[OF g] n g unfolding a_def by blast
qed




section \<open>Properties of the exporter and the driver\<close>

lemma save_Inr:
  "save pic p w = (Inr u, w') \<Longrightarrow> w' = w\<lparr>files := (files w)(p \<mapsto> pic)\<rparr>"
  by (auto simp: save_def split: if_splits)

lemma save_ok:
  "parent_exists w p \<Longrightarrow> p \<notin> dirs w \<Longrightarrow> save pic p w = (Inr (), w\<lparr>files := (files w)(p \<mapsto> pic)\<rparr>)"
  by (simp add: save_def)

lemma save_Inl: "save pic p w = (Inl e, w') \<Longrightarrow> w' = w"
  by (auto simp: save_def split: if_splits)

lemma export_sizes_dry:
  "export_sizes sl im d True ss w =
     (Inr PyNone, w\<lparr>stdout := stdout w @ map (report_line True) (artifact_paths sl d False ss)\<rparr>)"
proof (induction ss arbitrary: w)
  case Nil
  then show ?case by (simp add: artifact_paths_def)
next
  case (Cons sz rest)
  show ?case
    by (simp add: Cons.IH Let_def print_def artifact_paths_def report_line_def)
qed

lemma export_sizes_live:
  assumes "export_sizes sl im d False ss w = (Inr v, w')"
  shows "v = PyNone \<and> dirs w' = dirs w
     \<and> stdout w' = stdout w @ map (report_line False) (artifact_paths sl d False ss)
     \<and> (\<forall>p\<in>set (artifact_paths sl d False ss). files w' p \<noteq> None)
     \<and> (\<forall>p. p \<notin> set (artifact_paths sl d False ss) \<longrightarrow> files w' p = files w p)"
  using assms
proof (induction ss arbitrary: w)
  case Nil
  then show ?case by (simp add: artifact_paths_def)
next
  case (Cons sz rest)
  define tp where "tp = Slash d (sl @ ''_'' @ py_str sz @ ''.png'')"
  obtain r1 w1 where s1: "save (resize_NEAREST im (sz, sz)) tp w = (r1, w1)" by fastforce
  show ?case
  proof (cases r1)
    case (Inl e)
    then show ?thesis using Cons.prems s1 by (simp add: Let_def tp_def)
  next
    case (Inr u)
    then have w1: "w1 = w\<lparr>files := (files w)(tp \<mapsto> resize_NEAREST im (sz, sz))\<rparr>"
      using save_Inr s1 by blast
    have run: "export_sizes sl im d False rest (print (''Saved '' @ path_str tp) w1) = (Inr v, w')"
      using Cons.prems s1 Inr by (simp add: Let_def tp_def)
    note ih = Cons.IH[OF run]
    have ap: "artifact_paths sl d False (sz # rest) = tp # artifact_paths sl d False rest"
      by (simp add: artifact_paths_def tp_def)
    show ?thesis unfolding ap using ih w1
      by (auto simp: print_def report_line_def)
  qed
qed

lemma export_sizes_live_ok:
  assumes "d \<in> dirs w" "\<forall>p\<in>set (artifact_paths sl d False ss). p \<notin> dirs w"
  shows "\<exists>w'. export_sizes sl im d False ss w = (Inr PyNone, w')"
  using assms
proof (induction ss arbitrary: w)
  case Nil
  then show ?case by simp
next
  case (Cons sz rest)
  define tp where "tp = Slash d (sl @ ''_'' @ py_str sz @ ''.png'')"
  define w1 where "w1 = print (''Saved '' @ path_str tp) (w\<lparr>files := (files w)(tp \<mapsto> resize_NEAREST im (sz, sz))\<rparr>)"
  have ap: "artifact_paths sl d False (sz # rest) = tp # artifact_paths sl d False rest"
    by (simp add: artifact_paths_def tp_def)
  have "parent_exists w tp" "tp \<notin> dirs w" using Cons.prems ap by (simp_all add: tp_def)
  then have sv: "save (resize_NEAREST im (sz, sz)) tp w
      = (Inr (), w\<lparr>files := (files w)(tp \<mapsto> resize_NEAREST im (sz, sz))\<rparr>)"
    by (rule save_ok)
  have d1: "dirs w1 = dirs w" by (simp add: w1_def print_def)
  have "\<exists>w'. export_sizes sl im d False rest w1 = (Inr PyNone, w')"
    using Cons.IH[of w1] Cons.prems ap d1 by simp
  then show ?case using sv unfolding tp_def w1_def by (simp add: Let_def)
qed

lemma export_asset_dry:
  assumes "render_asset_grid a = Inr im"
  shows "export_asset a szs d ib True w =
     (Inr PyNone, w\<lparr>stdout := stdout w @ map (report_line True)
        (artifact_paths (slug a) d ib (sort (remdups (filter (\<lambda>sz. 0 < sz) szs))))\<rparr>)"
  by (simp add: export_asset_def assms export_base_def export_sizes_dry Let_def print_def
      artifact_paths_def report_line_def)

lemma export_asset_dry_frame:
  "export_asset a szs d ib True w = (r, w') \<Longrightarrow> dirs w' = dirs w \<and> files w' = files w"
  by (cases "render_asset_grid a") (auto simp: export_asset_dry, auto simp: export_asset_def)

lemma export_asset_live:
  assumes "export_asset a szs d ib False w = (Inr v, w')"
    and "ts = artifact_paths (slug a) d ib (sort (remdups (filter (\<lambda>sz. 0 < sz) szs)))"
  shows "(\<exists>im. render_asset_grid a = Inr im) \<and> v = PyNone \<and> dirs w' = dirs w
     \<and> stdout w' = stdout w @ map (report_line False) ts
     \<and> (\<forall>p\<in>set ts. files w' p \<noteq> None)
     \<and> (\<forall>p. p \<notin> set ts \<longrightarrow> files w' p = files w p)"
proof -
  define ss where "ss = sort (remdups (filter (\<lambda>sz. 0 < sz) szs))"
  obtain im where im: "render_asset_grid a = Inr im"
    using assms(1) by (cases "render_asset_grid a") (auto simp: export_asset_def)
  show ?thesis
  proof (cases ib)
    case False
    then have run: "export_sizes (slug a) im d False ss w = (Inr v, w')"
      using assms(1) im by (simp add: export_asset_def ss_def)
    have ts: "ts = artifact_paths (slug a) d False ss"
      using assms(2) False by (simp add: ss_def artifact_paths_def)
    show ?thesis using export_sizes_live[OF run] im unfolding ts by blast
  next
    case True
    define bp where "bp = Slash d (slug a @ ''_base.png'')"
    obtain r1 w1 where s1: "save (Unscaled im) bp w = (r1, w1)" by fastforce
    show ?thesis
    proof (cases r1)
      case (Inl e)
      then show ?thesis using assms(1) im True s1
        by (simp add: export_asset_def export_base_def Let_def bp_def)
    next
      case (Inr u)
      then have w1: "w1 = w\<lparr>files := (files w)(bp \<mapsto> Unscaled im)\<rparr>"
        using save_Inr s1 by blast
      have run: "export_sizes (slug a) im d False ss (print (''Saved '' @ path_str bp) w1) = (Inr v, w')"
        using assms(1) im True s1 Inr
        by (simp add: export_asset_def export_base_def Let_def bp_def ss_def)
      have ts: "ts = bp # artifact_paths (slug a) d False ss"
        using assms(2) True by (simp add: ss_def artifact_paths_def bp_def)
      show ?thesis unfolding ts using export_sizes_live[OF run] im w1
        by (auto simp: print_def report_line_def)
    qed
  qed
qed

lemma export_asset_live_ok:
  assumes "render_asset_grid a = Inr im" "d \<in> dirs w"
    and "\<forall>p\<in>set (artifact_paths (slug a) d ib (sort (remdups (filter (\<lambda>sz. 0 < sz) szs)))). p \<notin> dirs w"
  shows "\<exists>w'. export_asset a szs d ib False w = (Inr PyNone, w')"
proof (cases ib)
  case False
  then show ?thesis
    using export_sizes_live_ok[OF assms(2), of "slug a" _ im] assms(1,3)
    by (simp add: export_asset_def artifact_paths_def)
next
  case True
  define bp where "bp = Slash d (slug a @ ''_base.png'')"
  define w1 where "w1 = print (''Saved '' @ path_str bp) (w\<lparr>files := (files w)(bp \<mapsto> Unscaled im)\<rparr>)"
  have "parent_exists w bp" "bp \<notin> dirs w"
    using assms(2,3) True by (simp_all add: bp_def artifact_paths_def)
  then have sv: "save (Unscaled im) bp w = (Inr (), w\<lparr>files := (files w)(bp \<mapsto> Unscaled im)\<rparr>)"
    by (rule save_ok)
  have d1: "d \<in> dirs w1" using assms(2) by (simp add: w1_def print_def)
  have nd: "\<forall>p\<in>set (artifact_paths (slug a) d False (sort (remdups (filter (\<lambda>sz. 0 < sz) szs)))). p \<notin> dirs w1"
    using assms(3) by (simp add: w1_def print_def artifact_paths_def)
  from export_sizes_live_ok[OF d1 nd, of im]
  show ?thesis using sv assms(1) True unfolding bp_def w1_def
    by (simp add: export_asset_def export_base_def Let_def)
qed

text \<open>C7: whatever the sequence of sizes, the exporter works through the list \<open>ss\<close> of its
  positive members, each once, in ascending order; the artifacts are \<open>{slug}_base.png\<close> (when
  the base is included) and then \<open>{slug}_{size}.png\<close> for each size of \<open>ss\<close>, each directly
  under the output directory. A dry run reports exactly these paths, in this order; a run
  that writes and completes has saved and reported exactly these paths.\<close>

theorem export_asset_sizes_and_names:
  assumes "render_asset_grid asset = Inr base_image"
  shows "\<exists>ss. sorted ss \<and> distinct ss \<and> set ss = {sz \<in> set szs. 0 < sz}
     \<and> export_asset asset szs out_dir inc_base True w =
          (Inr PyNone, w\<lparr>stdout := stdout w @ map (\<lambda>p. ''[dry-run] '' @ path_str p)
             ((if inc_base then [Slash out_dir (slug asset @ ''_base.png'')] else [])
              @ map (\<lambda>sz. Slash out_dir (slug asset @ ''_'' @ py_str sz @ ''.png'')) ss)\<rparr>)
     \<and> (\<forall>v w'. export_asset asset szs out_dir inc_base False w = (Inr v, w') \<longrightarrow>
            stdout w' = stdout w @ map (\<lambda>p. ''Saved '' @ path_str p)
               ((if inc_base then [Slash out_dir (slug asset @ ''_base.png'')] else [])
                @ map (\<lambda>sz. Slash out_dir (slug asset @ ''_'' @ py_str sz @ ''.png'')) ss)
            \<and> (\<forall>p\<in>set ((if inc_base then [Slash out_dir (slug asset @ ''_base.png'')] else [])
                  @ map (\<lambda>sz. Slash out_dir (slug asset @ ''_'' @ py_str sz @ ''.png'')) ss).
                  files w' p \<noteq> None))"
proof -
  define ss where "ss = sort (remdups (filter (\<lambda>sz. 0 < sz) szs))"
  have p1: "sorted ss" "distinct ss" "set ss = {sz \<in> set szs. 0 < sz}"
    by (auto simp: ss_def)
  have ap: "artifact_paths (slug asset) out_dir inc_base ss =
      (if inc_base then [Slash out_dir (slug asset @ ''_base.png'')] else [])
       @ map (\<lambda>sz. Slash out_dir (slug asset @ ''_'' @ py_str sz @ ''.png'')) ss"
    by (simp add: artifact_paths_def)
  have rl: "report_line True = (\<lambda>p. ''[dry-run] '' @ path_str p)"
    "report_line False = (\<lambda>p. ''Saved '' @ path_str p)"
    by (simp_all add: report_line_def fun_eq_iff)
  have dry: "export_asset asset szs out_dir inc_base True w =
          (Inr PyNone, w\<lparr>stdout := stdout w @ map (\<lambda>p. ''[dry-run] '' @ path_str p)
             (artifact_paths (slug asset) out_dir inc_base ss)\<rparr>)"
    using export_asset_dry[OF assms, of szs out_dir inc_base w] unfolding ss_def rl .
  have live: "stdout w' = stdout w @ map (\<lambda>p. ''Saved '' @ path_str p)
               (artifact_paths (slug asset) out_dir inc_base ss)
            \<and> (\<forall>p\<in>set (artifact_paths (slug asset) out_dir inc_base ss). files w' p \<noteq> None)"
    if "export_asset asset szs out_dir inc_base False w = (Inr v, w')" for v w'
    using export_asset_live[OF that refl] unfolding ss_def rl by blast
  show ?thesis
    using p1 dry live unfolding ap by blast
qed

end
